theory Spec2Isabelle
  imports Main "HOL-Library.Monad_Syntax" "HOL-Library.Word"
begin

unbundle bit_operations_syntax

section \<open>Go strings\<close>

text \<open>
  A Go string is a sequence of bytes and \<open>len\<close> counts bytes, so a Go string is a
  \<^typ>\<open>string\<close> here (a list of 8-bit characters). The functions of package
  \<open>strings\<close> that the formula commands call are written out below on bytes.

  A slice expression \<open>s[lo:hi]\<close> panics when \<open>lo > hi\<close> or \<open>hi > len(s)\<close>. A
  computation that may panic returns an option, \<open>None\<close> being the panic.
\<close>

type_synonym 'a may_panic = "'a option"

definition slice :: "string \<Rightarrow> nat \<Rightarrow> nat \<Rightarrow> string may_panic" where
  "slice s lo hi = (if lo \<le> hi \<and> hi \<le> length s then Some (take (hi - lo) (drop lo s)) else None)"

definition HasPrefix :: "string \<Rightarrow> string \<Rightarrow> bool" where
  "HasPrefix s p \<longleftrightarrow> length p \<le> length s \<and> take (length p) s = p"

text \<open>\<open>strings.Index\<close>: the byte offset of the first occurrence, \<open>None\<close> for Go's \<open>-1\<close>.\<close>

fun Index :: "string \<Rightarrow> string \<Rightarrow> nat option" where
  "Index [] substr = (if substr = [] then Some 0 else None)"
| "Index (c # cs) substr =
     (if HasPrefix (c # cs) substr then Some 0 else map_option Suc (Index cs substr))"


text \<open>
  \<open>strings.Split\<close> cuts at each occurrence of the separator, found from the left and not
  overlapping. Every call in the program passes a non-empty literal separator; for the
  empty separator Go cuts after each UTF-8 sequence, which is written here per byte.
\<close>

lemma Index_bound: "Index s substr = Some i \<Longrightarrow> i + length substr \<le> length s"
proof (induction s arbitrary: i)
  case Nil
  then show ?case by (simp split: if_splits)
next
  case (Cons c cs)
  then show ?case by (auto simp: HasPrefix_def split: if_splits)
qed

function Split :: "string \<Rightarrow> string \<Rightarrow> string list" where
  "Split s sep =
     (if sep = [] then map (\<lambda>c. [c]) s
      else case Index s sep of
             None \<Rightarrow> [s]
           | Some m \<Rightarrow> take m s # Split (drop (m + length sep) s) sep)"
  by pat_completeness auto
termination
proof (relation "measure (\<lambda>(s, sep). length s)")
  show "wf (measure (\<lambda>(s, sep). length s))" by simp
next
  fix s sep :: string and m :: nat
  assume "sep \<noteq> []" and "Index s sep = Some m"
  then have "m + length sep \<le> length s" and "0 < length sep"
    by (auto dest: Index_bound)
  then show "((drop (m + length sep) s, sep), (s, sep)) \<in> measure (\<lambda>(s, sep). length s)"
    by (cases sep) auto
qed

declare Split.simps [simp del]

text \<open>\<open>strings.SplitN\<close> with a non-empty separator and a count \<open>n \<ge> 0\<close>.\<close>

fun SplitN :: "string \<Rightarrow> string \<Rightarrow> nat \<Rightarrow> string list" where
  "SplitN s sep 0 = []"
| "SplitN s sep (Suc 0) = [s]"
| "SplitN s sep (Suc (Suc n)) =
     (case Index s sep of
        None \<Rightarrow> [s]
      | Some m \<Rightarrow> take m s # SplitN (drop (m + length sep) s) sep (Suc n))"

text \<open>
  \<open>strings.TrimSpace\<close> removes leading and trailing Unicode white space. On the bytes of
  a string that is: the six ASCII space bytes and the UTF-8 encodings of U+0085, U+00A0,
  U+1680, U+2000 to U+200A, U+2028, U+2029, U+202F, U+205F and U+3000. Go decodes one
  rune at the front (at the back) and tests it; a string starts (ends) with the
  encoding of a rune exactly when that rune is decoded there, so stripping the byte
  sequences is the same function.
\<close>

definition spaceSeqs :: "string list" where
  "spaceSeqs =
     [[CHR 0x09], [CHR 0x0A], [CHR 0x0B], [CHR 0x0C], [CHR 0x0D], [CHR 0x20],
      [CHR 0xC2, CHR 0x85], [CHR 0xC2, CHR 0xA0],
      [CHR 0xE1, CHR 0x9A, CHR 0x80],
      [CHR 0xE2, CHR 0x80, CHR 0x80], [CHR 0xE2, CHR 0x80, CHR 0x81],
      [CHR 0xE2, CHR 0x80, CHR 0x82], [CHR 0xE2, CHR 0x80, CHR 0x83],
      [CHR 0xE2, CHR 0x80, CHR 0x84], [CHR 0xE2, CHR 0x80, CHR 0x85],
      [CHR 0xE2, CHR 0x80, CHR 0x86], [CHR 0xE2, CHR 0x80, CHR 0x87],
      [CHR 0xE2, CHR 0x80, CHR 0x88], [CHR 0xE2, CHR 0x80, CHR 0x89],
      [CHR 0xE2, CHR 0x80, CHR 0x8A],
      [CHR 0xE2, CHR 0x80, CHR 0xA8], [CHR 0xE2, CHR 0x80, CHR 0xA9],
      [CHR 0xE2, CHR 0x80, CHR 0xAF], [CHR 0xE2, CHR 0x81, CHR 0x9F],
      [CHR 0xE3, CHR 0x80, CHR 0x80]]"

text \<open>The length of the first of the sequences that the string starts with, 0 for none.\<close>

fun leadWidth :: "string list \<Rightarrow> string \<Rightarrow> nat" where
  "leadWidth [] s = 0"
| "leadWidth (q # qs) s = (if q \<noteq> [] \<and> HasPrefix s q then length q else leadWidth qs s)"

lemma leadWidth_le: "leadWidth qs s \<le> length s"
  by (induction qs) (auto simp: HasPrefix_def)

function stripLeft :: "string list \<Rightarrow> string \<Rightarrow> string" where
  "stripLeft qs s = (if leadWidth qs s = 0 then s else stripLeft qs (drop (leadWidth qs s) s))"
  by pat_completeness auto
termination
proof (relation "measure (\<lambda>(qs, s). length s)")
  show "wf (measure (\<lambda>(qs, s). length s))" by simp
next
  fix qs :: "string list" and s :: string
  assume "leadWidth qs s \<noteq> 0"
  moreover have "leadWidth qs s \<le> length s" by (rule leadWidth_le)
  ultimately show "((qs, drop (leadWidth qs s) s), (qs, s)) \<in> measure (\<lambda>(qs, s). length s)"
    by simp
qed

declare stripLeft.simps [simp del]

definition TrimSpace :: "string \<Rightarrow> string" where
  "TrimSpace s = rev (stripLeft (map rev spaceSeqs) (rev (stripLeft spaceSeqs s)))"

text \<open>\<open>strings.Trim\<close> with a cutset of ASCII characters removes those bytes at both ends.\<close>

definition Trim :: "string \<Rightarrow> string \<Rightarrow> string" where
  "Trim s cutset =
     rev (dropWhile (\<lambda>c. c \<in> set cutset) (rev (dropWhile (\<lambda>c. c \<in> set cutset) s)))"


section \<open>The formula document\<close>

text \<open>
  The structs \<open>formulaLeg\<close>, \<open>formulaSynthesis\<close>, \<open>formulaOutput\<close> and \<open>formulaData\<close>.
  Several of them have fields of the same name (\<open>Title\<close>, \<open>Description\<close>, \<open>Synthesis\<close>),
  so each field carries a short prefix of its struct. A pointer field that may be
  \<open>nil\<close> is an option; the map \<open>Prompts\<close> is a partial function.
\<close>

record formulaLeg =
  leg_ID :: string
  leg_Title :: string
  leg_Focus :: string
  leg_Description :: string

record formulaSynthesis =
  syn_Title :: string
  syn_Description :: string
  syn_DependsOn :: "string list"

record formulaOutput =
  out_Directory :: string
  out_LegPattern :: string
  out_Synthesis :: string

record formulaData =
  fd_Name :: string
  fd_Description :: string
  fd_Type :: string
  fd_Legs :: "formulaLeg list"
  fd_Synthesis :: "formulaSynthesis option"
  fd_Prompts :: "string \<rightharpoonup> string"
  fd_Output :: "formulaOutput option"

datatype error = Panic | Error string

section \<open>The structural extractor\<close>

definition dquote :: char where
  "dquote = CHR 0x22"

definition squote :: char where
  "squote = CHR 0x27"

definition newline :: string where
  "newline = [CHR 0x0A]"

definition tripleQuote :: string where
  "tripleQuote = [dquote, dquote, dquote]"

text \<open>
  \<open>extractTOMLValue\<close>: the loop over the lines of the content, returning at the first
  line that assigns the key; the empty string when the loop ends.
\<close>

fun extractTOMLValue_lines :: "string list \<Rightarrow> string \<Rightarrow> string may_panic" where
  "extractTOMLValue_lines [] key = Some []"
| "extractTOMLValue_lines (l # ls) key =
     (let line = TrimSpace l in
      if HasPrefix line (key @ '' ='') \<or> HasPrefix line (key @ ''='') then
        (let parts = SplitN line ''='' 2 in
         if length parts = 2 then
           (let val = TrimSpace (parts ! 1) in
            if length val \<ge> 2 \<and> (val ! 0 = dquote \<or> val ! 0 = squote)
            then slice val 1 (length val - 1)
            else Some val)
         else extractTOMLValue_lines ls key)
      else extractTOMLValue_lines ls key)"

definition extractTOMLValue :: "string \<Rightarrow> string \<Rightarrow> string may_panic" where
  "extractTOMLValue content key = extractTOMLValue_lines (Split content newline) key"

definition extractTOMLMultiline :: "string \<Rightarrow> string \<Rightarrow> string may_panic" where
  "extractTOMLMultiline content key =
     (let keyPattern = key @ '' = '' @ tripleQuote in
      case Index content keyPattern of
        None \<Rightarrow> extractTOMLValue content key
      | Some idx \<Rightarrow>
          (let start = idx + length keyPattern in
           do {
             rest \<leftarrow> slice content start (length content);
             case Index rest tripleQuote of
               None \<Rightarrow> Some []
             | Some e \<Rightarrow> do {
                 inner \<leftarrow> slice content start (start + e);
                 Some (TrimSpace inner)
               }
           }))"

text \<open>
  \<open>extractLegs\<close>: the body of the loop first (one block after a \<open>[[legs]]\<close> marker, cut at
  the next \<open>[[\<close>, gives one leg), then the loop, which appends the leg when its id is
  not empty. The text before the first marker is skipped.
\<close>

definition legOfSection :: "string \<Rightarrow> formulaLeg may_panic" where
  "legOfSection section0 =
     (let endIdx = (case Index section0 ''[['' of None \<Rightarrow> length section0 | Some i \<Rightarrow> i) in
      do {
        section \<leftarrow> slice section0 0 endIdx;
        i \<leftarrow> extractTOMLValue section ''id'';
        t \<leftarrow> extractTOMLValue section ''title'';
        f \<leftarrow> extractTOMLValue section ''focus'';
        d \<leftarrow> extractTOMLMultiline section ''description'';
        Some \<lparr>leg_ID = i, leg_Title = t, leg_Focus = f, leg_Description = d\<rparr>
      })"

fun extractLegs_loop :: "string list \<Rightarrow> formulaLeg list \<Rightarrow> formulaLeg list may_panic" where
  "extractLegs_loop [] legs = Some legs"
| "extractLegs_loop (section0 # rest) legs =
     do {
       leg \<leftarrow> legOfSection section0;
       extractLegs_loop rest (if leg_ID leg \<noteq> [] then legs @ [leg] else legs)
     }"

definition extractLegs :: "string \<Rightarrow> formulaLeg list may_panic" where
  "extractLegs content = extractLegs_loop (drop 1 (Split content ''[[legs]]'')) []"

text \<open>
  The three singleton sections are bounded by the same statements: from the header to
  the first newline followed by \<open>[\<close> that comes after the header's first byte, or to the
  end of the text. \<open>Some None\<close> is the header not being there.
\<close>

definition sectionOf :: "string \<Rightarrow> string \<Rightarrow> string option may_panic" where
  "sectionOf content header =
     (case Index content header of
        None \<Rightarrow> Some None
      | Some idx \<Rightarrow> do {
          section \<leftarrow> slice content idx (length content);
          tail \<leftarrow> slice section 1 (length section);
          case Index tail (newline @ ''['') of
            None \<Rightarrow> Some (Some section)
          | Some endIdx \<Rightarrow> do {
              cut \<leftarrow> slice section 0 (endIdx + 1);
              Some (Some cut)
            }
        })"

text \<open>The \<open>depends_on\<close> array: trim the brackets, split at commas, strip space and quotes.\<close>

definition parseDependsOn :: "string \<Rightarrow> string list" where
  "parseDependsOn depsLine =
     (if depsLine \<noteq> [] then
        filter (\<lambda>dep. dep \<noteq> [])
          (map (\<lambda>dep. Trim (TrimSpace dep) [dquote, squote]) (Split (Trim depsLine ''[]'') '',''))
      else [])"

definition extractSynthesis :: "string \<Rightarrow> formulaSynthesis option may_panic" where
  "extractSynthesis content =
     do {
       sec \<leftarrow> sectionOf content ''[synthesis]'';
       case sec of
         None \<Rightarrow> Some None
       | Some section \<Rightarrow> do {
           t \<leftarrow> extractTOMLValue section ''title'';
           d \<leftarrow> extractTOMLMultiline section ''description'';
           depsLine \<leftarrow> extractTOMLValue section ''depends_on'';
           let syn = \<lparr>syn_Title = t, syn_Description = d, syn_DependsOn = parseDependsOn depsLine\<rparr>;
           if syn_Title syn = [] \<and> syn_Description syn = [] then Some None else Some (Some syn)
         }
     }"

definition extractPrompts :: "string \<Rightarrow> (string \<rightharpoonup> string) may_panic" where
  "extractPrompts content =
     do {
       sec \<leftarrow> sectionOf content ''[prompts]'';
       case sec of
         None \<Rightarrow> Some Map.empty
       | Some section \<Rightarrow> do {
           base \<leftarrow> extractTOMLMultiline section ''base'';
           if base \<noteq> [] then Some [''base'' \<mapsto> base] else Some Map.empty
         }
     }"

definition extractOutput :: "string \<Rightarrow> formulaOutput option may_panic" where
  "extractOutput content =
     do {
       sec \<leftarrow> sectionOf content ''[output]'';
       case sec of
         None \<Rightarrow> Some None
       | Some section \<Rightarrow> do {
           d \<leftarrow> extractTOMLValue section ''directory'';
           p \<leftarrow> extractTOMLValue section ''leg_pattern'';
           s \<leftarrow> extractTOMLValue section ''synthesis'';
           if d = [] \<and> p = [] \<and> s = [] then Some None
           else Some (Some \<lparr>out_Directory = d, out_LegPattern = p, out_Synthesis = s\<rparr>)
         }
     }"

section \<open>The document parser\<close>

text \<open>
  \<open>parseFormulaContent\<close> returns a document and an error. A panic inside one of the
  extractors would end the call without a return; it is the result \<open>Inl Panic\<close>.
\<close>

definition parseFormulaContent_body :: "string \<Rightarrow> formulaData may_panic" where
  "parseFormulaContent_body content =
     do {
       n \<leftarrow> extractTOMLValue content ''formula'';
       d \<leftarrow> extractTOMLMultiline content ''description'';
       t \<leftarrow> extractTOMLValue content ''type'';
       legs \<leftarrow> extractLegs content;
       syn \<leftarrow> extractSynthesis content;
       prompts \<leftarrow> extractPrompts content;
       out \<leftarrow> extractOutput content;
       Some \<lparr>fd_Name = n, fd_Description = d, fd_Type = t, fd_Legs = legs,
             fd_Synthesis = syn, fd_Prompts = prompts, fd_Output = out\<rparr>
     }"

definition parseFormulaContent :: "string \<Rightarrow> error + formulaData" where
  "parseFormulaContent data =
     (case parseFormulaContent_body data of None \<Rightarrow> Inl Panic | Some f \<Rightarrow> Inr f)"




section \<open>The convoy title\<close>

text \<open>
  The first statements of step 1 of \<open>executeConvoyFormula\<close>: the title is
  \<open>fmt.Sprintf("%s: %s", formulaName, f.Description)\<close>, cut to its first 77 bytes and
  three dots when it is longer than 80 bytes.
\<close>

definition convoyTitle :: "string \<Rightarrow> string \<Rightarrow> string may_panic" where
  "convoyTitle formulaName description =
     (let title = formulaName @ '': '' @ description in
      if length title > 80 then do { h \<leftarrow> slice title 0 77; Some (h @ ''...'') }
      else Some title)"

text \<open>
  The number of characters of a string that is valid UTF-8: its bytes that do not
  continue a sequence (a continuation byte is \<open>0x80\<close> to \<open>0xBF\<close>). For an ASCII
  string it is the number of bytes.
\<close>

definition utf8Length :: "string \<Rightarrow> nat" where
  "utf8Length s =
     length (filter (\<lambda>c. \<not> ((0x80 :: nat) \<le> of_char c \<and> of_char c \<le> (0xBF :: nat))) s)"

text \<open>The euro sign, U+20AC, three bytes in UTF-8.\<close>

definition euro :: string where
  "euro = [CHR 0xE2, CHR 0x82, CHR 0xAC]"

section \<open>The positional line comparator\<close>

record LineDiff =
  ld_Type :: string
  ld_Left :: string
  ld_Right :: string

function findLineDifferences_loop ::
  "string list \<Rightarrow> string list \<Rightarrow> nat \<Rightarrow> nat \<Rightarrow> LineDiff list \<Rightarrow> LineDiff list" where
  "findLineDifferences_loop left right maxLen i diffs =
     (if i < maxLen then
        (let l = (if i < length left then left ! i else []);
             r = (if i < length right then right ! i else [])
         in
           if TrimSpace l = TrimSpace r then
             findLineDifferences_loop left right maxLen (i + 1) diffs
           else if TrimSpace l = [] \<and> TrimSpace r = [] then
             findLineDifferences_loop left right maxLen (i + 1) diffs
           else if i \<ge> length left then
             findLineDifferences_loop left right maxLen (i + 1)
               (diffs @ [\<lparr>ld_Type = ''added'', ld_Left = [], ld_Right = r\<rparr>])
           else if i \<ge> length right then
             findLineDifferences_loop left right maxLen (i + 1)
               (diffs @ [\<lparr>ld_Type = ''removed'', ld_Left = l, ld_Right = []\<rparr>])
           else
             findLineDifferences_loop left right maxLen (i + 1)
               (diffs @ [\<lparr>ld_Type = ''changed'', ld_Left = l, ld_Right = r\<rparr>]))
      else diffs)"
  by pat_completeness auto
termination
  by (relation "measure (\<lambda>(left, right, maxLen, i, diffs). maxLen - i)") auto

declare findLineDifferences_loop.simps [simp del]

definition findLineDifferences :: "string list \<Rightarrow> string list \<Rightarrow> LineDiff list" where
  "findLineDifferences left right =
     (let maxLen = (if length right > length left then length right else length left) in
      findLineDifferences_loop left right maxLen 0 [])"

text \<open>
  What the comparator reports at one index, in the words of the amended claim C8: a
  line on one side only is added or removed unless it is blank after trimming; lines
  on both sides are changed unless they are equal after trimming.
\<close>

definition diffAtIndex_spec :: "string list \<Rightarrow> string list \<Rightarrow> nat \<Rightarrow> LineDiff list" where
  "diffAtIndex_spec left right i =
     (if i < length left \<and> i < length right then
        (if TrimSpace (left ! i) = TrimSpace (right ! i) then []
         else [\<lparr>ld_Type = ''changed'', ld_Left = left ! i, ld_Right = right ! i\<rparr>])
      else if i < length right then
        (if TrimSpace (right ! i) = [] then []
         else [\<lparr>ld_Type = ''added'', ld_Left = [], ld_Right = right ! i\<rparr>])
      else if i < length left then
        (if TrimSpace (left ! i) = [] then []
         else [\<lparr>ld_Type = ''removed'', ld_Left = left ! i, ld_Right = []\<rparr>])
      else [])"

section \<open>The short identifier\<close>

text \<open>
  Modelled from the Go standard library, which is not part of the repository:
  \<open>base32.StdEncoding.EncodeToString\<close> (RFC 4648, alphabet \<open>A\<close> to \<open>Z\<close> and \<open>2\<close> to \<open>7\<close>,
  padding \<open>=\<close>) and \<open>strings.ToLower\<close> on ASCII. Each group of up to five bytes gives
  eight 5-bit values; a group of \<open>n\<close> bytes has \<open>(8 n + 4) div 5\<close> data characters and is
  padded to eight.
\<close>

type_synonym byte = "8 word"

definition encodeStd :: string where
  "encodeStd = ''ABCDEFGHIJKLMNOPQRSTUVWXYZ234567''"

definition quantum :: "byte list \<Rightarrow> byte list" where
  "quantum src =
     (let s = (\<lambda>i. if i < length src then src ! i else 0) in
      [drop_bit 3 (s 0),
       (push_bit 2 (s 0) AND 0x1F) OR (drop_bit 6 (s 1) AND 0x1F),
       drop_bit 1 (s 1) AND 0x1F,
       (push_bit 4 (s 1) AND 0x1F) OR (drop_bit 4 (s 2) AND 0x1F),
       (push_bit 1 (s 2) AND 0x1F) OR drop_bit 7 (s 3),
       drop_bit 2 (s 3) AND 0x1F,
       (push_bit 3 (s 3) AND 0x1F) OR drop_bit 5 (s 4),
       s 4 AND 0x1F])"

function EncodeToString :: "byte list \<Rightarrow> string" where
  "EncodeToString src =
     (if src = [] then []
      else
        (let q = take 5 src; k = (length q * 8 + 4) div 5 in
         map (\<lambda>b. encodeStd ! unat (b AND 31)) (take k (quantum q))
           @ replicate (8 - k) (CHR ''='') @ EncodeToString (drop 5 src)))"
  by pat_completeness auto
termination
  by (relation "measure length") auto

declare EncodeToString.simps [simp del]

definition toLowerChar :: "char \<Rightarrow> char" where
  "toLowerChar c =
     (if of_char c \<ge> (0x41 :: nat) \<and> of_char c \<le> (0x5A :: nat)
      then char_of (of_char c + (0x20 :: nat)) else c)"

definition ToLower :: "string \<Rightarrow> string" where
  "ToLower s = map toLowerChar s"

text \<open>
  \<open>generateFormulaShortID\<close>. The argument is the content of the 3-byte buffer after
  \<open>rand.Read\<close> has filled it.
\<close>

definition generateFormulaShortID :: "byte \<times> byte \<times> byte \<Rightarrow> string may_panic" where
  "generateFormulaShortID b =
     (case b of (b0, b1, b2) \<Rightarrow>
        do { p \<leftarrow> slice (EncodeToString [b0, b1, b2]) 0 5; Some (ToLower p) })"

text \<open>The alphabet of the identifiers: \<open>encodeStd\<close> in lower case.\<close>

definition lowerStd :: string where
  "lowerStd = ''abcdefghijklmnopqrstuvwxyz234567''"

text \<open>
  The five 5-bit values behind the five characters of an identifier, and the three
  bytes read back from them.
\<close>

definition idValues :: "byte \<times> byte \<times> byte \<Rightarrow> byte list" where
  "idValues b = (case b of (b0, b1, b2) \<Rightarrow> map (\<lambda>v. v AND 31) (take 5 (quantum [b0, b1, b2])))"

definition bytesOfValues :: "byte list \<Rightarrow> byte \<times> byte \<times> byte" where
  "bytesOfValues vs =
     (push_bit 3 (vs ! 0) OR drop_bit 2 (vs ! 1),
      push_bit 6 (vs ! 1) OR push_bit 1 (vs ! 2) OR drop_bit 4 (vs ! 3),
      push_bit 4 (vs ! 3) OR drop_bit 1 (vs ! 4))"

text \<open>The characters of \<open>lowerStd\<close> at the even places: the values of a fifth character.\<close>

definition fifthChars :: string where
  "fifthChars = ''acegikmoqsuwy246''"

section \<open>The environment of a command\<close>

text \<open>
  What a command reads from outside and does not compute itself is a field of the
  record \<open>env\<close>: the working directory, the workspace root, the functions of
  \<open>path/filepath\<close>, the files compiled into the binary, the digest, the commands found
  on the execution path, and the outcome of each external command. What a command
  changes is the record \<open>world\<close>: the files, the lines printed, the external commands
  run so far and the number of random identifiers drawn.
\<close>

datatype node = File string | Dir

record execution =
  ex_Name :: string
  ex_Args :: "string list"
  ex_Dir :: string
  ex_OK :: bool

record world =
  files :: "string \<rightharpoonup> node"
  stdout :: "string list"
  execLog :: "execution list"
  randIdx :: nat

text \<open>A value of a template context (\<open>map[string]interface{}\<close>).\<close>

datatype tval = TStr string | TInt int | TList "tval list" | TMap "(string \<times> tval) list"

record agentPreset =
  ap_Command :: string
  ap_NonInteractive :: "(string \<times> string) option"

record env =
  Getwd :: "error + string"
  FindFromCwd :: "error + string"
  findTownRoot :: "error + string"
  Join :: "string list \<Rightarrow> string"
  Base :: "string \<Rightarrow> string"
  formulasFS :: "string \<rightharpoonup> string"
  sha256hex :: "string \<Rightarrow> string"
  ioError :: "string \<Rightarrow> bool"
  Getenv :: "string \<Rightarrow> string"
  LookPath :: "string \<Rightarrow> bool"
  GetAgentPresetByName :: "string \<Rightarrow> agentPreset option"
  NeedsForceForID :: "string \<Rightarrow> bool"
  runCommand :: "nat \<Rightarrow> string \<Rightarrow> string list \<Rightarrow> error + string"
  randBytes :: "nat \<Rightarrow> byte \<times> byte \<times> byte"
  renderTemplate :: "string \<Rightarrow> (string \<times> tval) list \<Rightarrow> error + string"
  fetchPRInfo :: "int \<Rightarrow> string \<times> tval list"
  rangeOrder :: "(string \<times> string) list \<Rightarrow> (string \<times> string) list"



subsection \<open>Files\<close>

datatype statResult = StatOK node | StatNotExist | StatError

definition Stat :: "env \<Rightarrow> world \<Rightarrow> string \<Rightarrow> statResult" where
  "Stat e w path =
     (if ioError e path then StatError
      else case files w path of None \<Rightarrow> StatNotExist | Some n \<Rightarrow> StatOK n)"

text \<open>\<open>_, err := os.Stat(path); err == nil\<close>.\<close>

definition statNil :: "env \<Rightarrow> world \<Rightarrow> string \<Rightarrow> bool" where
  "statNil e w path \<longleftrightarrow> (case Stat e w path of StatOK n \<Rightarrow> True | _ \<Rightarrow> False)"




text \<open>\<open>fmt.Printf\<close> and \<open>fmt.Println\<close>: the text is added to what has been printed.\<close>

definition Printf :: "world \<Rightarrow> string \<Rightarrow> world" where
  "Printf w text = w\<lparr>stdout := stdout w @ [text]\<rparr>"

subsection \<open>The embedded formulas\<close>

definition formulaNameToFilename :: "string \<Rightarrow> string may_panic" where
  "formulaNameToFilename name =
     (let suffix = ''.formula.toml'' in
      if length name > length suffix then
        do {
          t \<leftarrow> slice name (length name - length suffix) (length name);
          if t = suffix then Some name else Some (name @ suffix)
        }
      else Some (name @ suffix))"

definition GetEmbeddedFormula :: "env \<Rightarrow> string \<Rightarrow> (error + string) may_panic" where
  "GetEmbeddedFormula e name =
     do {
       filename \<leftarrow> formulaNameToFilename name;
       case formulasFS e (''formulas/'' @ filename) of
         None \<Rightarrow>
           Some (Inl (Error (''embedded formula '' @ [dquote] @ name @ [dquote] @ '' not found: open formulas/''
                   @ filename @ '': file does not exist'')))
       | Some content \<Rightarrow> Some (Inr content)
     }"

definition EmbeddedFormulaExists :: "env \<Rightarrow> string \<Rightarrow> bool may_panic" where
  "EmbeddedFormulaExists e name =
     do {
       filename \<leftarrow> formulaNameToFilename name;
       Some (formulasFS e (''formulas/'' @ filename) \<noteq> None)
     }"

definition GetEmbeddedFormulaHash :: "env \<Rightarrow> string \<Rightarrow> (error + string) may_panic" where
  "GetEmbeddedFormulaHash e name =
     do {
       r \<leftarrow> GetEmbeddedFormula e name;
       case r of
         Inl err \<Rightarrow> Some (Inl err)
       | Inr content \<Rightarrow> Some (Inr (sha256hex e content))
     }"



section \<open>The resolver\<close>

datatype FormulaSource = FormulaSourceFile | FormulaSourceEmbedded

record FormulaLocation =
  loc_Path :: string
  loc_Source :: FormulaSource

definition searchPaths :: "env \<Rightarrow> string list" where
  "searchPaths e =
     (case Getwd e of Inr cwd \<Rightarrow> [Join e [cwd, ''.beads'', ''formulas'']] | Inl err \<Rightarrow> [])
     @ (case FindFromCwd e of
          Inr townRoot \<Rightarrow> [Join e [townRoot, ''.beads'', ''formulas'']]
        | Inl err \<Rightarrow> [])"

definition extensions :: "string list" where
  "extensions = [''.formula.toml'', ''.formula.json'']"

text \<open>The two nested loops of \<open>findFormulaWithSource\<close>, returning at the first file found.\<close>

fun tryExtensions :: "env \<Rightarrow> world \<Rightarrow> string \<Rightarrow> string \<Rightarrow> string list \<Rightarrow> string option" where
  "tryExtensions e w basePath name [] = None"
| "tryExtensions e w basePath name (ext # exts) =
     (let path = Join e [basePath, name @ ext] in
      if statNil e w path then Some path else tryExtensions e w basePath name exts)"

fun trySearchPaths :: "env \<Rightarrow> world \<Rightarrow> string \<Rightarrow> string list \<Rightarrow> string option" where
  "trySearchPaths e w name [] = None"
| "trySearchPaths e w name (basePath # rest) =
     (case tryExtensions e w basePath name extensions of
        Some path \<Rightarrow> Some path
      | None \<Rightarrow> trySearchPaths e w name rest)"

definition findFormulaWithSource :: "env \<Rightarrow> world \<Rightarrow> string \<Rightarrow> error + FormulaLocation" where
  "findFormulaWithSource e w name =
     (case trySearchPaths e w name (searchPaths e) of
        Some path \<Rightarrow> Inr \<lparr>loc_Path = path, loc_Source = FormulaSourceFile\<rparr>
      | None \<Rightarrow>
          (case EmbeddedFormulaExists e name of
             None \<Rightarrow> Inl Panic
           | Some True \<Rightarrow> Inr \<lparr>loc_Path = name, loc_Source = FormulaSourceEmbedded\<rparr>
           | Some False \<Rightarrow>
               Inl (Error (''formula '' @ [squote] @ name @ [squote]
                 @ '' not found in search paths or embedded''))))"

definition IsEmbedded :: "FormulaLocation \<Rightarrow> bool" where
  "IsEmbedded f \<longleftrightarrow> loc_Source f = FormulaSourceEmbedded"

text \<open>
  The files that the two loops look for, in the order in which they look: for each
  search path, the name with each extension.
\<close>

definition candidates :: "env \<Rightarrow> string \<Rightarrow> string list" where
  "candidates e name =
     concat (map (\<lambda>basePath. map (\<lambda>ext. Join e [basePath, name @ ext]) extensions) (searchPaths e))"

section \<open>A small environment to run the commands in\<close>

text \<open>
  The theorems below hold for every environment. To run a command on a concrete input
  one environment is fixed here: a town \<open>/town\<close> with the working directory in the rig
  \<open>/town/rig\<close>, paths joined with a slash, one embedded formula \<open>shiny\<close>, a stand-in for
  the digest (the content behind a tag), no failing file operation, every external
  command succeeding with empty output, the agent \<open>claude\<close> on the execution path and
  the random buffers \<open>(0, 0, n)\<close> at the \<open>n\<close>-th draw.
\<close>

fun joinSlash :: "string list \<Rightarrow> string" where
  "joinSlash [] = []"
| "joinSlash [x] = x"
| "joinSlash (x # y # ys) = (if x = [] then joinSlash (y # ys) else x @ ''/'' @ joinSlash (y # ys))"

definition baseSlash :: "string \<Rightarrow> string" where
  "baseSlash path = last (Split path ''/'')"

definition shinyContent :: string where
  "shinyContent = ''formula = shiny'' @ newline @ ''type = convoy'' @ newline"

definition env0 :: env where
  "env0 = \<lparr>
     Getwd = Inr ''/town/rig'',
     FindFromCwd = Inr ''/town'',
     findTownRoot = Inr ''/town'',
     Join = joinSlash,
     Base = baseSlash,
     formulasFS = [''formulas/shiny.formula.toml'' \<mapsto> shinyContent],
     sha256hex = (\<lambda>content. ''digest-of:'' @ filter (\<lambda>c. c \<noteq> CHR 0x0A) content),
     ioError = (\<lambda>path. False),
     Getenv = (\<lambda>name. []),
     LookPath = (\<lambda>name. name = ''claude''),
     GetAgentPresetByName =
       (\<lambda>name. if name = ''claude''
          then Some \<lparr>ap_Command = ''claude'', ap_NonInteractive = None\<rparr> else None),
     NeedsForceForID = (\<lambda>i. False),
     runCommand = (\<lambda>n name args. Inr []),
     randBytes = (\<lambda>n. (0, 0, of_nat n)),
     renderTemplate = (\<lambda>tmplText ctx. Inr tmplText),
     fetchPRInfo = (\<lambda>n. ([], [])),
     rangeOrder = (\<lambda>m. m)
   \<rparr>"

definition world0 :: "(string \<rightharpoonup> node) \<Rightarrow> world" where
  "world0 fs = \<lparr>files = fs, stdout = [], execLog = [], randIdx = 0\<rparr>"

section \<open>The override manager\<close>





subsection \<open>Reset\<close>





subsection \<open>Update\<close>
























subsection \<open>A town with both overrides of one formula\<close>







section \<open>The extractors never panic\<close>


lemma slice_in_range: "lo \<le> hi \<Longrightarrow> hi \<le> length s \<Longrightarrow> slice s lo hi = Some (take (hi - lo) (drop lo s))"
  by (simp add: slice_def)

lemma slice_length: "slice s lo hi = Some r \<Longrightarrow> length r = hi - lo"
  by (auto simp: slice_def split: if_splits)

lemma extractTOMLValue_lines_total: "\<exists>v. extractTOMLValue_lines ls key = Some v"
proof (induction ls)
  case Nil
  show ?case by simp
next
  case (Cons l ls)
  then show ?case
    by (auto simp: Let_def slice_in_range)
qed

lemma extractTOMLValue_total: "\<exists>v. extractTOMLValue content key = Some v"
  unfolding extractTOMLValue_def by (rule extractTOMLValue_lines_total)

lemma extractTOMLMultiline_total: "\<exists>v. extractTOMLMultiline content key = Some v"
proof (cases "Index content (key @ '' = '' @ tripleQuote)")
  case None
  then show ?thesis
    using extractTOMLValue_total [of content key]
    by (simp add: extractTOMLMultiline_def)
next
  case (Some idx)
  let ?kp = "key @ '' = '' @ tripleQuote"
  let ?start = "idx + length ?kp"
  from Some have b: "?start \<le> length content" by (rule Index_bound)
  then have r: "slice content ?start (length content) = Some (drop ?start content)"
    by (simp add: slice_in_range)
  show ?thesis
  proof (cases "Index (drop ?start content) tripleQuote")
    case None
    with Some r show ?thesis by (simp add: extractTOMLMultiline_def Let_def)
  next
    case (Some e)
    then have "e + length tripleQuote \<le> length (drop ?start content)" by (rule Index_bound)
    with b have "?start + e \<le> length content" by simp
    then have "\<exists>v. slice content ?start (?start + e) = Some v" by (simp add: slice_in_range)
    with Some \<open>Index content ?kp = Some idx\<close> r show ?thesis
      by (auto simp: extractTOMLMultiline_def Let_def)
  qed
qed

lemma legOfSection_total: "\<exists>leg. legOfSection section0 = Some leg"
proof -
  define endIdx where "endIdx = (case Index section0 ''[['' of None \<Rightarrow> length section0 | Some i \<Rightarrow> i)"
  have "endIdx \<le> length section0"
    unfolding endIdx_def by (auto split: option.splits dest: Index_bound)
  then obtain sec where s: "slice section0 0 endIdx = Some sec" by (simp add: slice_in_range)
  obtain i t f d where
    "extractTOMLValue sec ''id'' = Some i" "extractTOMLValue sec ''title'' = Some t"
    "extractTOMLValue sec ''focus'' = Some f" "extractTOMLMultiline sec ''description'' = Some d"
    using extractTOMLValue_total extractTOMLMultiline_total by metis
  with s show ?thesis
    by (simp add: legOfSection_def endIdx_def [symmetric])
qed

lemma extractLegs_loop_eq:
  "extractLegs_loop secs acc =
     Some (acc @ filter (\<lambda>leg. leg_ID leg \<noteq> []) (map (\<lambda>s. the (legOfSection s)) secs))"
proof (induction secs arbitrary: acc)
  case Nil
  show ?case by simp
next
  case (Cons s secs)
  obtain leg where "legOfSection s = Some leg" using legOfSection_total by blast
  then show ?case by (simp add: Cons.IH)
qed

lemma sectionOf_total: "header \<noteq> [] \<Longrightarrow> \<exists>r. sectionOf content header = Some r"
proof (cases "Index content header")
  case None
  then show ?thesis by (simp add: sectionOf_def)
next
  case (Some idx)
  then have b: "idx + length header \<le> length content" by (rule Index_bound)
  then have s: "slice content idx (length content) = Some (drop idx content)"
    by (simp add: slice_in_range)
  assume "header \<noteq> []"
  with b have l: "1 \<le> length (drop idx content)" by (cases header) auto
  then have t: "slice (drop idx content) 1 (length (drop idx content)) = Some (drop 1 (drop idx content))"
    by (simp add: slice_in_range)
  show ?thesis
  proof (cases "Index (drop 1 (drop idx content)) (newline @ ''['')")
    case None
    with Some s t show ?thesis by (simp add: sectionOf_def)
  next
    case (Some e)
    then have "e + length (newline @ ''['') \<le> length (drop 1 (drop idx content))" by (rule Index_bound)
    then have "e + 1 \<le> length (drop idx content)" by simp
    then have "\<exists>v. slice (drop idx content) 0 (e + 1) = Some v" by (simp add: slice_in_range)
    with Some \<open>Index content header = Some idx\<close> s t show ?thesis
      by (auto simp: sectionOf_def)
  qed
qed


lemma extractSynthesis_total: "\<exists>r. extractSynthesis content = Some r"
proof -
  obtain sec where s: "sectionOf content ''[synthesis]'' = Some sec"
    using sectionOf_total [of "''[synthesis]''" content] by auto
  show ?thesis
  proof (cases sec)
    case None
    with s show ?thesis by (simp add: extractSynthesis_def)
  next
    case (Some sct)
    obtain t d dl where
      "extractTOMLValue sct ''title'' = Some t"
      "extractTOMLMultiline sct ''description'' = Some d"
      "extractTOMLValue sct ''depends_on'' = Some dl"
      using extractTOMLValue_total extractTOMLMultiline_total by metis
    with s Some show ?thesis by (simp add: extractSynthesis_def Let_def)
  qed
qed

lemma extractPrompts_total: "\<exists>r. extractPrompts content = Some r"
proof -
  obtain sec where s: "sectionOf content ''[prompts]'' = Some sec"
    using sectionOf_total [of "''[prompts]''" content] by auto
  show ?thesis
  proof (cases sec)
    case None
    with s show ?thesis by (simp add: extractPrompts_def)
  next
    case (Some sct)
    obtain b where "extractTOMLMultiline sct ''base'' = Some b"
      using extractTOMLMultiline_total by blast
    with s Some show ?thesis by (simp add: extractPrompts_def)
  qed
qed

lemma extractOutput_total: "\<exists>r. extractOutput content = Some r"
proof -
  obtain sec where s: "sectionOf content ''[output]'' = Some sec"
    using sectionOf_total [of "''[output]''" content] by auto
  show ?thesis
  proof (cases sec)
    case None
    with s show ?thesis by (simp add: extractOutput_def)
  next
    case (Some sct)
    obtain d p sy where
      "extractTOMLValue sct ''directory'' = Some d"
      "extractTOMLValue sct ''leg_pattern'' = Some p"
      "extractTOMLValue sct ''synthesis'' = Some sy"
      using extractTOMLValue_total by metis
    with s Some show ?thesis by (simp add: extractOutput_def)
  qed
qed

lemma extractLegs_eq:
  "extractLegs content =
     Some (filter (\<lambda>leg. leg_ID leg \<noteq> [])
            (map (\<lambda>s. the (legOfSection s)) (drop 1 (Split content ''[[legs]]''))))"
  by (simp add: extractLegs_def extractLegs_loop_eq)






lemma parseFormulaContent_body_total: "\<exists>f. parseFormulaContent_body data = Some f"
proof -
  obtain n d t syn pr out where
    "extractTOMLValue data ''formula'' = Some n"
    "extractTOMLMultiline data ''description'' = Some d"
    "extractTOMLValue data ''type'' = Some t"
    "extractSynthesis data = Some syn"
    "extractPrompts data = Some pr"
    "extractOutput data = Some out"
    using extractTOMLValue_total extractTOMLMultiline_total extractSynthesis_total
      extractPrompts_total extractOutput_total by metis
  then show ?thesis
    by (simp add: parseFormulaContent_body_def extractLegs_eq)
qed





text \<open>
  Claim C4. For every input text, \<open>extractLegs\<close> returns exactly the legs of the blocks
  whose extracted id is not empty, in order: a block with an empty id is left out
  whatever its title, focus and description are, and every returned leg has a
  non-empty id.
\<close>

theorem extractLegs_nonempty_ids:
  "\<exists>legs. extractLegs content = Some legs
     \<and> legs = filter (\<lambda>leg. leg_ID leg \<noteq> [])
                (map (\<lambda>s. the (legOfSection s)) (drop 1 (Split content ''[[legs]]'')))
     \<and> (\<forall>leg \<in> set legs. leg_ID leg \<noteq> [])"
  by (simp add: extractLegs_eq)

text \<open>
  Two blocks, the first with a title and a focus but no id, the second with an id only:
  the first is dropped.
\<close>

theorem extractLegs_nonempty_ids_witness:
  "extractLegs (''[[legs]]'' @ newline @ ''title = No id'' @ newline @ ''focus = f'' @ newline
       @ ''[[legs]]'' @ newline @ ''id = a'' @ newline)
     = Some [\<lparr>leg_ID = ''a'', leg_Title = [], leg_Focus = [], leg_Description = []\<rparr>]
   \<and> map (\<lambda>s. leg_Title (the (legOfSection s)))
        (drop 1 (Split (''[[legs]]'' @ newline @ ''title = No id'' @ newline @ ''focus = f''
           @ newline @ ''[[legs]]'' @ newline @ ''id = a'' @ newline) ''[[legs]]''))
     = [''No id'', []]"
proof -
  let ?X = "''[[legs]]'' @ newline @ ''title = No id'' @ newline @ ''focus = f'' @ newline
       @ ''[[legs]]'' @ newline @ ''id = a'' @ newline"
  have a: "extractLegs ?X
     = Some [\<lparr>leg_ID = ''a'', leg_Title = [], leg_Focus = [], leg_Description = []\<rparr>]"
    by code_simp
  have b: "map (\<lambda>s. leg_Title (the (legOfSection s))) (drop 1 (Split ?X ''[[legs]]''))
     = [''No id'', []]"
    by code_simp
  from extractLegs_nonempty_ids [of ?X] a b show ?thesis by simp
qed

text \<open>
  Claim C10. When the input has a \<open>[synthesis]\<close> section whose title and description
  are both extracted empty, \<open>extractSynthesis\<close> returns nil, whatever the section's
  \<open>depends_on\<close> line holds, and the parsed document has no synthesis: the declared ids
  are discarded.
\<close>

theorem extractSynthesis_discards_depends_on:
  assumes "sectionOf content ''[synthesis]'' = Some (Some sct)"
    and "extractTOMLValue sct ''title'' = Some []"
    and "extractTOMLMultiline sct ''description'' = Some []"
  shows "extractSynthesis content = Some None
     \<and> (\<exists>f. parseFormulaContent content = Inr f \<and> fd_Synthesis f = None)"
proof -
  obtain dl where "extractTOMLValue sct ''depends_on'' = Some dl"
    using extractTOMLValue_total by blast
  with assms have s: "extractSynthesis content = Some None"
    by (simp add: extractSynthesis_def Let_def)
  obtain f where f: "parseFormulaContent_body content = Some f"
    using parseFormulaContent_body_total by blast
  with s have "fd_Synthesis f = None"
    by (auto simp: parseFormulaContent_body_def bind_eq_Some_conv)
  with f s show ?thesis by (simp add: parseFormulaContent_def)
qed

theorem extractSynthesis_discards_depends_on_witness:
  "parseDependsOn (the (extractTOMLValue
       (''[synthesis]'' @ newline @ ''depends_on = [a, b]'' @ newline) ''depends_on''))
     = [''a'', ''b'']
   \<and> extractSynthesis (''[synthesis]'' @ newline @ ''depends_on = [a, b]'' @ newline) = Some None
   \<and> (\<exists>f. parseFormulaContent (''[synthesis]'' @ newline @ ''depends_on = [a, b]'' @ newline) = Inr f
         \<and> fd_Synthesis f = None)"
proof -
  let ?X = "''[synthesis]'' @ newline @ ''depends_on = [a, b]'' @ newline"
  have s: "sectionOf ?X ''[synthesis]'' = Some (Some ?X)" by code_simp
  have t: "extractTOMLValue ?X ''title'' = Some []" by code_simp
  have d: "extractTOMLMultiline ?X ''description'' = Some []" by code_simp
  have p: "parseDependsOn (the (extractTOMLValue ?X ''depends_on'')) = [''a'', ''b'']"
    by code_simp
  from extractSynthesis_discards_depends_on [OF s t d] p show ?thesis by simp
qed

section \<open>The convoy title is at most 80 bytes\<close>

text \<open>
  Claim C5, as amended. Lengths are Go's \<open>len\<close>, which counts bytes. When the composed
  title \<open><formula-name>: <description>\<close> is longer than 80 bytes, the title used is
  exactly 80 bytes long: the first 77 bytes of the composed title and the marker
  \<open>...\<close>. A composed title of 80 bytes or fewer is used unchanged.
\<close>

theorem convoyTitle_truncation:
  "\<exists>t. convoyTitle formulaName description = Some t
     \<and> (length (formulaName @ '': '' @ description) > 80 \<longrightarrow>
          length t = 80 \<and> drop 77 t = ''...'' \<and> take 77 t = take 77 (formulaName @ '': '' @ description))
     \<and> (length (formulaName @ '': '' @ description) \<le> 80 \<longrightarrow> t = formulaName @ '': '' @ description)"
proof -
  define title where "title = formulaName @ '': '' @ description"
  have ct: "convoyTitle formulaName description =
      (if length title > 80 then slice title 0 77 \<bind> (\<lambda>h. Some (h @ ''...'')) else Some title)"
    by (simp only: convoyTitle_def Let_def title_def)
  show ?thesis
  proof (cases "length title > 80")
    case True
    then have "slice title 0 77 = Some (take 77 title)" by (simp add: slice_in_range)
    with True have "convoyTitle formulaName description = Some (take 77 title @ ''...'')"
      by (simp add: ct)
    moreover from True have "length (take 77 title @ ''...'') = 80"
      and "drop 77 (take 77 title @ ''...'') = ''...''"
      and "take 77 (take 77 title @ ''...'') = take 77 title"
      by simp_all
    ultimately show ?thesis using True unfolding title_def [symmetric] by simp
  next
    case False
    then have "convoyTitle formulaName description = Some title"
      by (simp add: ct)
    with False show ?thesis unfolding title_def [symmetric] by simp
  qed
qed

theorem convoyTitle_truncation_witness:
  "80 < length (''review'' @ '': '' @ replicate 80 (CHR ''x''))
   \<and> (\<exists>t. convoyTitle ''review'' (replicate 80 (CHR ''x'')) = Some t
          \<and> length t = 80 \<and> drop 77 t = ''...'')
   \<and> length (''a'' @ '': '' @ ''b'') \<le> 80
   \<and> convoyTitle ''a'' ''b'' = Some ''a: b''"
proof -
  have l: "80 < length (''review'' @ '': '' @ replicate 80 (CHR ''x''))" by simp
  have s: "length (''a'' @ '': '' @ ''b'') \<le> 80" by simp
  from convoyTitle_truncation [of "''review''" "replicate 80 (CHR ''x'')"] l
  have "\<exists>t. convoyTitle ''review'' (replicate 80 (CHR ''x'')) = Some t
          \<and> length t = 80 \<and> drop 77 t = ''...''"
    by blast
  moreover from convoyTitle_truncation [of "''a''" "''b''"] s
  have "convoyTitle ''a'' ''b'' = Some ''a: b''" by auto
  ultimately show ?thesis using l s by blast
qed

text \<open>
  The claim as stated, in characters, fails: with a description of 30 euro signs the
  composed title has 33 characters and 93 bytes. It is cut after its 77th byte, in
  the middle of a euro sign, and the title used has 31 characters.
\<close>

theorem convoyTitle_characters_counterexample:
  "utf8Length (''r'' @ '': '' @ concat (replicate 30 euro)) = 33
   \<and> length (''r'' @ '': '' @ concat (replicate 30 euro)) = 93
   \<and> convoyTitle ''r'' (concat (replicate 30 euro))
       = Some (''r: '' @ concat (replicate 24 euro) @ [CHR 0xE2, CHR 0x82] @ ''...'')
   \<and> utf8Length (''r: '' @ concat (replicate 24 euro) @ [CHR 0xE2, CHR 0x82] @ ''...'') = 31"
  by code_simp

section \<open>The line comparator is positional\<close>

lemma leadWidth_Nil: "leadWidth qs [] = 0"
  by (induction qs) (auto simp: HasPrefix_def)

lemma TrimSpace_Nil: "TrimSpace [] = []"
  by (simp add: TrimSpace_def stripLeft.simps leadWidth_Nil)

lemma loop_step:
  "i < maxLen \<Longrightarrow>
   findLineDifferences_loop left right maxLen i diffs =
     findLineDifferences_loop left right maxLen (Suc i) (diffs @ diffAtIndex_spec left right i)"
  by (subst findLineDifferences_loop.simps) (auto simp: diffAtIndex_spec_def Let_def TrimSpace_Nil)

lemma loop_eq:
  "findLineDifferences_loop left right maxLen i diffs =
     diffs @ concat (map (diffAtIndex_spec left right) [i ..< maxLen])"
proof (induction "maxLen - i" arbitrary: i diffs)
  case 0
  then show ?case by (subst findLineDifferences_loop.simps) simp
next
  case (Suc n)
  then have lt: "i < maxLen" and n: "n = maxLen - Suc i" by auto
  show ?case
    by (simp add: loop_step [OF lt] Suc.hyps(1) [OF n] upt_conv_Cons [OF lt])
qed

text \<open>
  Claim C8, as amended. The comparator works index for index, up to the longer of the
  two lists, and reports at each index what \<open>diffAtIndex_spec\<close> says: nothing when both
  lines are there and equal after trimming; \<open>changed\<close> with both lines when both are
  there and differ after trimming; \<open>added\<close> with the right line at an index past the
  end of the left list, and \<open>removed\<close> with the left line at an index past the end of
  the right list, unless that line is blank after trimming, which is skipped like a
  pair of blank lines.
\<close>

theorem findLineDifferences_positional:
  "findLineDifferences left right =
     concat (map (diffAtIndex_spec left right) [0 ..< max (length left) (length right)])"
  by (simp add: findLineDifferences_def loop_eq max_def)

theorem findLineDifferences_positional_witness:
  "findLineDifferences [''a'', ''b'', ''q'', []] [''a '', ''c'']
     = [\<lparr>ld_Type = ''changed'', ld_Left = ''b'', ld_Right = ''c''\<rparr>,
        \<lparr>ld_Type = ''removed'', ld_Left = ''q'', ld_Right = []\<rparr>]"
proof -
  have "concat (map (diffAtIndex_spec [''a'', ''b'', ''q'', []] [''a '', ''c''])
          [0 ..< max (length [''a'', ''b'', ''q'', []]) (length [''a '', ''c''])])
     = [\<lparr>ld_Type = ''changed'', ld_Left = ''b'', ld_Right = ''c''\<rparr>,
        \<lparr>ld_Type = ''removed'', ld_Left = ''q'', ld_Right = []\<rparr>]"
    by code_simp
  with findLineDifferences_positional [of "[''a'', ''b'', ''q'', []]" "[''a '', ''c'']"]
  show ?thesis by simp
qed

text \<open>
  The claim as stated fails: index 1 is past the end of the left list and the right
  list has a line there (the empty line after a final newline), yet no \<open>added\<close>
  difference is reported; likewise for \<open>removed\<close>.
\<close>

theorem findLineDifferences_blank_counterexample:
  "findLineDifferences [''a''] [''a'', []] = []
   \<and> findLineDifferences [''a'', '' ''] [''a''] = []"
  by code_simp

section \<open>The short identifiers\<close>



lemma lt8: "n < 8 \<Longrightarrow> (n :: nat) \<in> {0, 1, 2, 3, 4, 5, 6, 7}"
  by auto

lemma byte_high_bit: "8 \<le> n \<Longrightarrow> bit (w :: 8 word) n = False"
  by (auto dest: bit_imp_le_length)

lemmas bit_unfold = bit_or_iff bit_and_iff bit_push_bit_iff bit_drop_bit_eq bit_mask_iff
  possible_bit_word bit_0_eq

lemma r0m: "push_bit 3 (drop_bit 3 b0 AND mask 5) OR drop_bit 2 (((push_bit 2 b0 AND mask 5) OR (drop_bit 6 b1 AND mask 5)) AND mask 5) = (b0 :: 8 word)"
  (is "?l = _")
proof (rule bit_word_eqI)
  fix n :: nat
  assume "n < LENGTH(8)"
  then have "n < 8" by simp
  then have "n \<in> {0, 1, 2, 3, 4, 5, 6, 7}" by (rule lt8)
  then show "bit ?l n = bit b0 n"
    by (elim insertE emptyE; hypsubst; simp only: bit_unfold; simp add: bit_unfold byte_high_bit; (simp add: eval_nat_numeral bit_double_Suc_iff mult.commute [of _ 2])?)
qed

lemma r1m: "push_bit 6 (((push_bit 2 b0 AND mask 5) OR (drop_bit 6 b1 AND mask 5)) AND mask 5)
   OR push_bit 1 ((drop_bit 1 b1 AND mask 5) AND mask 5)
   OR drop_bit 4 (((push_bit 4 b1 AND mask 5) OR (drop_bit 4 b2 AND mask 5)) AND mask 5) = (b1 :: 8 word)"
  (is "?l = _")
proof (rule bit_word_eqI)
  fix n :: nat
  assume "n < LENGTH(8)"
  then have "n < 8" by simp
  then have "n \<in> {0, 1, 2, 3, 4, 5, 6, 7}" by (rule lt8)
  then show "bit ?l n = bit b1 n"
    by (elim insertE emptyE; hypsubst; simp only: bit_unfold; simp add: bit_unfold byte_high_bit; (simp add: eval_nat_numeral bit_double_Suc_iff mult.commute [of _ 2])?)
qed

lemma r2m: "push_bit 4 (((push_bit 4 b1 AND mask 5) OR (drop_bit 4 b2 AND mask 5)) AND mask 5)
   OR drop_bit 1 (((push_bit 1 b2 AND mask 5) OR drop_bit 7 0) AND mask 5) = (b2 :: 8 word)"
  (is "?l = _")
proof (rule bit_word_eqI)
  fix n :: nat
  assume "n < LENGTH(8)"
  then have "n < 8" by simp
  then have "n \<in> {0, 1, 2, 3, 4, 5, 6, 7}" by (rule lt8)
  then show "bit ?l n = bit b2 n"
    by (elim insertE emptyE; hypsubst; simp only: bit_unfold; simp add: bit_unfold byte_high_bit; (simp add: eval_nat_numeral bit_double_Suc_iff mult.commute [of _ 2])?)
qed



lemma m5: "(31 :: 8 word) = mask 5"
  by (simp add: mask_eq_exp_minus_1)

lemma bytesOfValues_idValues: "bytesOfValues (idValues b) = b"
proof -
  obtain b0 b1 b2 where b: "b = (b0, b1, b2)" by (cases b) auto
  have q: "idValues (b0, b1, b2) =
     [drop_bit 3 b0 AND mask 5,
      ((push_bit 2 b0 AND mask 5) OR (drop_bit 6 b1 AND mask 5)) AND mask 5,
      (drop_bit 1 b1 AND mask 5) AND mask 5,
      ((push_bit 4 b1 AND mask 5) OR (drop_bit 4 b2 AND mask 5)) AND mask 5,
      ((push_bit 1 b2 AND mask 5) OR drop_bit 7 0) AND mask 5]"
    by (simp add: idValues_def quantum_def m5)
  have bv: "\<And>w0 w1 w2 w3 w4. bytesOfValues [w0, w1, w2, w3, w4] =
      (push_bit 3 w0 OR drop_bit 2 w1,
       push_bit 6 w1 OR push_bit 1 w2 OR drop_bit 4 w3,
       push_bit 4 w3 OR drop_bit 1 w4)"
    by (simp add: bytesOfValues_def)
  show ?thesis
    unfolding b q bv by (simp only: r0m r1m r2m)
qed

lemma idValues_inj: "idValues b = idValues b' \<Longrightarrow> b = b'"
  by (metis bytesOfValues_idValues)

lemma idValues_length: "length (idValues b) = 5"
  by (cases b) (simp add: idValues_def quantum_def)

lemma idValues_lt32: "v \<in> set (idValues b) \<Longrightarrow> unat v < 32"
proof -
  assume "v \<in> set (idValues b)"
  then obtain w where "v = w AND mask 5" by (cases b) (auto simp: idValues_def m5)
  then have "v = take_bit 5 w" by (simp add: take_bit_eq_mask)
  then have "unat v = take_bit 5 (unat w)" by (simp add: unsigned_take_bit_eq)
  moreover have "take_bit 5 (unat w) < 2 ^ 5" by (rule take_bit_nat_less_exp)
  ultimately show ?thesis by simp
qed

lemma lower_table: "list_all (\<lambda>i. toLowerChar (encodeStd ! i) = lowerStd ! i) [0 ..< 32]"
  by code_simp

lemma lower_nth: "i < 32 \<Longrightarrow> toLowerChar (encodeStd ! i) = lowerStd ! i"
  using lower_table by (simp add: list_all_iff)

lemma distinct_lowerStd: "distinct lowerStd"
  by code_simp

lemma length_lowerStd: "length lowerStd = 32"
  by (simp add: lowerStd_def)

lemma generateFormulaShortID_eq:
  "generateFormulaShortID b = Some (map (\<lambda>v. lowerStd ! unat v) (idValues b))"
proof -
  obtain b0 b1 b2 where b: "b = (b0, b1, b2)" by (cases b) auto
  have e: "EncodeToString [b0, b1, b2] =
      map (\<lambda>v. encodeStd ! unat v) (idValues (b0, b1, b2)) @ ''===''"
    by (subst EncodeToString.simps) (simp add: idValues_def Let_def EncodeToString.simps [of "[]"] comp_def numeral_3_eq_3)
  have l: "length (idValues (b0, b1, b2)) = 5" by (rule idValues_length)
  have "slice (EncodeToString [b0, b1, b2]) 0 5 = Some (map (\<lambda>v. encodeStd ! unat v) (idValues (b0, b1, b2)))"
    by (simp add: e slice_in_range l)
  moreover have "ToLower (map (\<lambda>v. encodeStd ! unat v) (idValues (b0, b1, b2)))
      = map (\<lambda>v. lowerStd ! unat v) (idValues (b0, b1, b2))"
    by (simp add: ToLower_def lower_nth idValues_lt32)
  ultimately show ?thesis by (simp add: generateFormulaShortID_def b)
qed

lemma generateFormulaShortID_inj: "inj generateFormulaShortID"
proof (rule injI)
  fix b b'
  assume "generateFormulaShortID b = generateFormulaShortID b'"
  then have m: "map (\<lambda>v. lowerStd ! unat v) (idValues b) = map (\<lambda>v. lowerStd ! unat v) (idValues b')"
    by (simp add: generateFormulaShortID_eq)
  have "idValues b = idValues b'"
  proof (rule nth_equalityI)
    show "length (idValues b) = length (idValues b')" by (simp add: idValues_length)
  next
    fix i assume i: "i < length (idValues b)"
    then have i': "i < length (idValues b')" by (simp add: idValues_length)
    from m i i' have "lowerStd ! unat (idValues b ! i) = lowerStd ! unat (idValues b' ! i)"
      by (metis nth_map)
    moreover have "unat (idValues b ! i) < 32"
      using i by (intro idValues_lt32 [of _ b] nth_mem)
    moreover have "unat (idValues b' ! i) < 32"
      using i' by (intro idValues_lt32 [of _ b'] nth_mem)
    ultimately have "unat (idValues b ! i) = unat (idValues b' ! i)"
      using distinct_lowerStd by (simp add: nth_eq_iff_index_eq length_lowerStd)
    then show "idValues b ! i = idValues b' ! i" by (rule word_unat_eq_iff [THEN iffD2])
  qed
  then show "b = b'" by (rule idValues_inj)
qed

lemma card_ids: "card (range generateFormulaShortID) = 2 ^ 24"
proof -
  have "card (range generateFormulaShortID) = card (UNIV :: (byte \<times> byte \<times> byte) set)"
    by (rule card_image) (rule generateFormulaShortID_inj)
  also have "\<dots> = 2 ^ 24" by (simp add: card_cartesian_product card_word flip: UNIV_Times_UNIV)
  finally show ?thesis .
qed

lemma fifth_bits:
  "((push_bit 1 b2 AND mask 5) OR drop_bit 7 0) AND mask 5 = push_bit 1 (take_bit 4 (b2 :: 8 word))"
  (is "?l = ?r")
proof (rule bit_word_eqI)
  fix n :: nat
  assume "n < LENGTH(8)"
  then have "n < 8" by simp
  then have "n \<in> {0, 1, 2, 3, 4, 5, 6, 7}" by (rule lt8)
  then show "bit ?l n = bit ?r n"
    by (elim insertE emptyE; hypsubst; simp only: bit_unfold bit_take_bit_iff; simp add: bit_unfold bit_take_bit_iff byte_high_bit; (simp add: eval_nat_numeral bit_double_Suc_iff mult.commute [of _ 2])?)
qed

lemma unat_fifth: "unat (push_bit 1 (take_bit 4 (b2 :: 8 word))) = 2 * (unat b2 mod 16)"
proof -
  have a: "unat (take_bit 4 b2) = unat b2 mod 16"
    by (simp only: unsigned_take_bit_eq) (simp add: take_bit_eq_mod)
  have "unat (push_bit 1 (take_bit 4 b2)) = take_bit 8 (push_bit 1 (unat (take_bit 4 b2)))"
    by (subst unsigned_push_bit_eq) simp
  also have "\<dots> = take_bit 8 (2 * (unat b2 mod 16))"
    by (simp add: a push_bit_eq_mult mult.commute)
  also have "\<dots> = 2 * (unat b2 mod 16)"
    by (simp add: take_bit_eq_mod)
  finally show ?thesis .
qed

lemma idValues_fifth: "idValues (b0, b1, b2) ! 4 = push_bit 1 (take_bit 4 b2)"
proof -
  have q: "idValues (b0, b1, b2) ! 4 = ((push_bit 1 b2 AND mask 5) OR drop_bit 7 0) AND mask 5"
    by (simp add: idValues_def quantum_def m5)
  show ?thesis by (simp only: q fifth_bits)
qed

lemma fifth_char:
  "the (generateFormulaShortID (b0, b1, b2)) ! 4 = lowerStd ! (2 * (unat b2 mod 16))"
  by (simp add: generateFormulaShortID_eq idValues_length) (simp only: idValues_fifth unat_fifth)

lemma fifth_table: "list_all (\<lambda>k. lowerStd ! (2 * k) = fifthChars ! k) [0 ..< 16]"
  by code_simp

lemma fifth_range:
  "(\<lambda>b. the (generateFormulaShortID b) ! 4) ` UNIV = set fifthChars"
proof (intro set_eqI iffI)
  fix c assume "c \<in> (\<lambda>b. the (generateFormulaShortID b) ! 4) ` UNIV"
  then obtain b0 b1 b2 where "c = the (generateFormulaShortID (b0, b1, b2)) ! 4" by auto
  then have c: "c = lowerStd ! (2 * (unat b2 mod 16))" by (simp only: fifth_char)
  have "unat b2 mod 16 < 16" by simp
  then have "lowerStd ! (2 * (unat b2 mod 16)) = fifthChars ! (unat b2 mod 16)"
    using fifth_table by (simp add: list_all_iff)
  moreover have "fifthChars ! (unat b2 mod 16) \<in> set fifthChars"
    by (rule nth_mem) (simp add: fifthChars_def)
  ultimately show "c \<in> set fifthChars" using c by simp
next
  fix c assume "c \<in> set fifthChars"
  then obtain k where "k < length fifthChars" and ck: "c = fifthChars ! k"
    by (auto simp: in_set_conv_nth)
  then have k: "k < 16" by (simp add: fifthChars_def)
  have "unat (of_nat k :: 8 word) = k" using k by (simp add: unat_of_nat)
  then have "the (generateFormulaShortID (0, 0, of_nat k)) ! 4 = lowerStd ! (2 * k)"
    using k by (simp add: fifth_char)
  also have "\<dots> = fifthChars ! k" using fifth_table k by (simp add: list_all_iff)
  finally show "c \<in> (\<lambda>b. the (generateFormulaShortID b) ! 4) ` UNIV"
    using ck by (metis rangeI)
qed

lemma card_fifth: "card ((\<lambda>b. the (generateFormulaShortID b) ! 4) ` UNIV) = 16"
proof -
  have "distinct fifthChars" by code_simp
  then have "card (set fifthChars) = length fifthChars" by (rule distinct_card)
  then show ?thesis by (simp add: fifth_range fifthChars_def)
qed

text \<open>
  Claim C9, as amended. The identifier is the base-32 encoding of the three bytes, cut
  to its first five characters and put in lower case; it has exactly five characters,
  each of the lowercase base-32 alphabet. The three bytes can be read back from it, so
  the \<open>2 ^ 24\<close> buffers give \<open>2 ^ 24\<close> distinct identifiers. The fifth character
  carries the last four bits of the third byte (it is the character of the alphabet
  at twice their value) and takes exactly 16 values.
\<close>

theorem generateFormulaShortID_ids:
  "(\<exists>i. generateFormulaShortID (b0, b1, b2) = Some i
        \<and> i = ToLower (take 5 (EncodeToString [b0, b1, b2]))
        \<and> length i = 5 \<and> set i \<subseteq> set lowerStd
        \<and> i ! 4 = lowerStd ! (2 * (unat b2 mod 16)))
   \<and> inj generateFormulaShortID
   \<and> card (range generateFormulaShortID) = 2 ^ 24
   \<and> (\<lambda>b. the (generateFormulaShortID b) ! 4) ` UNIV = set fifthChars
   \<and> card ((\<lambda>b. the (generateFormulaShortID b) ! 4) ` UNIV) = 16"
proof -
  let ?i = "map (\<lambda>v. lowerStd ! unat v) (idValues (b0, b1, b2))"
  have 1: "generateFormulaShortID (b0, b1, b2) = Some ?i" by (rule generateFormulaShortID_eq)
  have "8 \<le> length (EncodeToString [b0, b1, b2])"
    by (subst EncodeToString.simps) (simp add: Let_def quantum_def)
  then have "slice (EncodeToString [b0, b1, b2]) 0 5 = Some (take 5 (EncodeToString [b0, b1, b2]))"
    by (simp add: slice_in_range)
  then have "generateFormulaShortID (b0, b1, b2) = Some (ToLower (take 5 (EncodeToString [b0, b1, b2])))"
    by (simp add: generateFormulaShortID_def)
  with 1 have 2: "?i = ToLower (take 5 (EncodeToString [b0, b1, b2]))" by simp
  have 3: "length ?i = 5" by (simp add: idValues_length)
  have 4: "set ?i \<subseteq> set lowerStd"
    by (auto simp: length_lowerStd dest: idValues_lt32)
  have 5: "?i ! 4 = lowerStd ! (2 * (unat b2 mod 16))"
    using fifth_char [of b0 b1 b2] by (simp only: 1 option.sel)
  from 1 2 3 4 5 have "\<exists>i. generateFormulaShortID (b0, b1, b2) = Some i
        \<and> i = ToLower (take 5 (EncodeToString [b0, b1, b2]))
        \<and> length i = 5 \<and> set i \<subseteq> set lowerStd
        \<and> i ! 4 = lowerStd ! (2 * (unat b2 mod 16))"
    by blast
  with generateFormulaShortID_inj card_ids fifth_range card_fifth show ?thesis by blast
qed

theorem generateFormulaShortID_ids_witness:
  "generateFormulaShortID (0, 0, 1) = Some ''aaaac''
   \<and> generateFormulaShortID (0, 0, 0) \<noteq> generateFormulaShortID (0, 0, 1)
   \<and> ''aaaac'' ! 4 = lowerStd ! (2 * (unat (1 :: byte) mod 16))"
proof -
  have v: "generateFormulaShortID (0, 0, 1) = Some ''aaaac''" by code_simp
  have "inj generateFormulaShortID" using generateFormulaShortID_ids [of 0 0 1] by blast
  then have n: "generateFormulaShortID (0, 0, 0) \<noteq> generateFormulaShortID (0, 0, 1)"
    by (simp add: inj_eq)
  from generateFormulaShortID_ids [of 0 0 1] v
  have "''aaaac'' ! 4 = lowerStd ! (2 * (unat (1 :: byte) mod 16))" by auto
  with v n show ?thesis by simp
qed

text \<open>
  The claim as stated gives about \<open>2 ^ 15\<close> identifiers; there are 512 times as many.
\<close>

theorem generateFormulaShortID_count_counterexample:
  "card (range generateFormulaShortID) = 512 * 2 ^ 15"
  using card_ids by simp

section \<open>Resolution prefers the files\<close>


lemma find_append_case:
  "List.find P (xs @ ys) = (case List.find P xs of Some x \<Rightarrow> Some x | None \<Rightarrow> List.find P ys)"
  by (induction xs) auto

lemma tryExtensions_find:
  "tryExtensions e w basePath name exts =
     List.find (statNil e w) (map (\<lambda>ext. Join e [basePath, name @ ext]) exts)"
  by (induction exts) (auto simp: Let_def)

lemma trySearchPaths_find:
  "trySearchPaths e w name sps =
     List.find (statNil e w)
       (concat (map (\<lambda>basePath. map (\<lambda>ext. Join e [basePath, name @ ext]) extensions) sps))"
  by (induction sps) (simp_all add: tryExtensions_find find_append_case split: option.splits)

lemma findFormulaWithSource_file:
  "List.find (statNil e w) (candidates e name) = Some p \<Longrightarrow>
   findFormulaWithSource e w name = Inr \<lparr>loc_Path = p, loc_Source = FormulaSourceFile\<rparr>"
  by (simp add: findFormulaWithSource_def trySearchPaths_find candidates_def)

lemma findFormulaWithSource_embedded:
  "List.find (statNil e w) (candidates e name) = None \<Longrightarrow> EmbeddedFormulaExists e name = Some True \<Longrightarrow>
   findFormulaWithSource e w name = Inr \<lparr>loc_Path = name, loc_Source = FormulaSourceEmbedded\<rparr>"
  by (simp add: findFormulaWithSource_def trySearchPaths_find candidates_def)

lemma find_Some_first:
  "List.find P xs = Some x \<Longrightarrow> x \<in> set xs \<and> P x"
  by (induction xs) (auto split: if_splits)

lemma find_exists: "x \<in> set xs \<Longrightarrow> P x \<Longrightarrow> \<exists>y. List.find P xs = Some y"
  by (induction xs) auto

lemma rig_tier_first:
  assumes "Getwd e = Inr cwd" and "ext \<in> set extensions"
    and "statNil e w (Join e [Join e [cwd, ''.beads'', ''formulas''], name @ ext])"
  shows "\<exists>ext' \<in> set extensions.
     List.find (statNil e w) (candidates e name)
       = Some (Join e [Join e [cwd, ''.beads'', ''formulas''], name @ ext'])"
proof -
  let ?rig = "map (\<lambda>ext. Join e [Join e [cwd, ''.beads'', ''formulas''], name @ ext]) extensions"
  from assms(2,3) obtain y where y: "List.find (statNil e w) ?rig = Some y"
    using find_exists [of _ ?rig "statNil e w"] by auto
  then have "y \<in> set ?rig" by (auto dest: find_Some_first)
  then obtain ext' where "ext' \<in> set extensions"
    and "y = Join e [Join e [cwd, ''.beads'', ''formulas''], name @ ext']" by auto
  moreover have "List.find (statNil e w) (candidates e name) = Some y"
    using y assms(1) by (simp add: candidates_def searchPaths_def find_append_case)
  ultimately show ?thesis by blast
qed


text \<open>
  Claim C1, as amended. For every formula name, the result of \<open>findFormulaWithSource\<close>
  is the first existing file among the candidates, in search order (the project-level
  directory under the working directory before the town-level directory, and in a
  directory \<open>.formula.toml\<close> before \<open>.formula.json\<close>), with source file: when any
  candidate exists the result is a candidate that exists and never the embedded
  formula, whether or not the name is embedded too; when a file for the name exists in
  the project-level directory, with either extension, the result is a file of that
  directory, though not always that file. When no candidate exists and the name is
  embedded, the result has source embedded and its path is the bare name.
\<close>

theorem findFormulaWithSource_precedence:
  "(\<forall>p. List.find (statNil e w) (candidates e name) = Some p \<longrightarrow>
        findFormulaWithSource e w name = Inr \<lparr>loc_Path = p, loc_Source = FormulaSourceFile\<rparr>)
   \<and> ((\<exists>p \<in> set (candidates e name). statNil e w p) \<longrightarrow>
        (\<exists>p \<in> set (candidates e name). statNil e w p
           \<and> findFormulaWithSource e w name = Inr \<lparr>loc_Path = p, loc_Source = FormulaSourceFile\<rparr>))
   \<and> (\<forall>cwd ext. Getwd e = Inr cwd \<and> ext \<in> set extensions
          \<and> statNil e w (Join e [Join e [cwd, ''.beads'', ''formulas''], name @ ext]) \<longrightarrow>
        (\<exists>ext' \<in> set extensions. findFormulaWithSource e w name =
           Inr \<lparr>loc_Path = Join e [Join e [cwd, ''.beads'', ''formulas''], name @ ext'],
                loc_Source = FormulaSourceFile\<rparr>))
   \<and> ((\<forall>p \<in> set (candidates e name). \<not> statNil e w p) \<and> EmbeddedFormulaExists e name = Some True \<longrightarrow>
        findFormulaWithSource e w name = Inr \<lparr>loc_Path = name, loc_Source = FormulaSourceEmbedded\<rparr>)"
proof (intro conjI allI impI)
  fix p assume "List.find (statNil e w) (candidates e name) = Some p"
  then show "findFormulaWithSource e w name = Inr \<lparr>loc_Path = p, loc_Source = FormulaSourceFile\<rparr>"
    by (rule findFormulaWithSource_file)
next
  assume "\<exists>p \<in> set (candidates e name). statNil e w p"
  then obtain y where y: "List.find (statNil e w) (candidates e name) = Some y"
    using find_exists by fastforce
  then have "y \<in> set (candidates e name)" "statNil e w y" by (auto dest: find_Some_first)
  with findFormulaWithSource_file [OF y]
  show "\<exists>p \<in> set (candidates e name). statNil e w p
           \<and> findFormulaWithSource e w name = Inr \<lparr>loc_Path = p, loc_Source = FormulaSourceFile\<rparr>"
    by blast
next
  fix cwd ext
  assume "Getwd e = Inr cwd \<and> ext \<in> set extensions
          \<and> statNil e w (Join e [Join e [cwd, ''.beads'', ''formulas''], name @ ext])"
  then obtain ext' where "ext' \<in> set extensions"
    and "List.find (statNil e w) (candidates e name)
       = Some (Join e [Join e [cwd, ''.beads'', ''formulas''], name @ ext'])"
    using rig_tier_first by blast
  then show "\<exists>ext' \<in> set extensions. findFormulaWithSource e w name =
           Inr \<lparr>loc_Path = Join e [Join e [cwd, ''.beads'', ''formulas''], name @ ext'],
                loc_Source = FormulaSourceFile\<rparr>"
    using findFormulaWithSource_file by blast
next
  assume a: "(\<forall>p \<in> set (candidates e name). \<not> statNil e w p) \<and> EmbeddedFormulaExists e name = Some True"
  then have "List.find (statNil e w) (candidates e name) = None"
    by (auto simp: find_None_iff)
  with a show "findFormulaWithSource e w name = Inr \<lparr>loc_Path = name, loc_Source = FormulaSourceEmbedded\<rparr>"
    by (simp add: findFormulaWithSource_embedded)
qed

text \<open>
  The formula \<open>shiny\<close> is embedded. With a \<open>.json\<close> file in the rig and a \<open>.toml\<close> file
  in the town the rig's file is found; with no file the embedded formula is.
\<close>

theorem findFormulaWithSource_precedence_witness:
  "EmbeddedFormulaExists env0 ''shiny'' = Some True
   \<and> findFormulaWithSource env0
         (world0 [''/town/rig/.beads/formulas/shiny.formula.json'' \<mapsto> File ''x'',
                  ''/town/.beads/formulas/shiny.formula.toml'' \<mapsto> File ''y'']) ''shiny''
       = Inr \<lparr>loc_Path = ''/town/rig/.beads/formulas/shiny.formula.json'',
              loc_Source = FormulaSourceFile\<rparr>
   \<and> findFormulaWithSource env0 (world0 Map.empty) ''shiny''
       = Inr \<lparr>loc_Path = ''shiny'', loc_Source = FormulaSourceEmbedded\<rparr>"
proof -
  let ?W = "world0 [''/town/rig/.beads/formulas/shiny.formula.json'' \<mapsto> File ''x'',
                  ''/town/.beads/formulas/shiny.formula.toml'' \<mapsto> File ''y'']"
  have e: "EmbeddedFormulaExists env0 ''shiny'' = Some True" by code_simp
  have f: "List.find (statNil env0 ?W) (candidates env0 ''shiny'')
      = Some ''/town/rig/.beads/formulas/shiny.formula.json''"
    by code_simp
  have n: "\<forall>p \<in> set (candidates env0 ''shiny''). \<not> statNil env0 (world0 Map.empty) p"
    by code_simp
  from findFormulaWithSource_precedence [of env0 ?W "''shiny''"] f
  have 1: "findFormulaWithSource env0 ?W ''shiny''
       = Inr \<lparr>loc_Path = ''/town/rig/.beads/formulas/shiny.formula.json'',
              loc_Source = FormulaSourceFile\<rparr>"
    by blast
  from findFormulaWithSource_precedence [of env0 "world0 Map.empty" "''shiny''"] n e
  have 2: "findFormulaWithSource env0 (world0 Map.empty) ''shiny''
       = Inr \<lparr>loc_Path = ''shiny'', loc_Source = FormulaSourceEmbedded\<rparr>"
    by blast
  from e 1 2 show ?thesis by (intro conjI)
qed

text \<open>
  The claim as stated fails for the path: the \<open>.json\<close> file below exists in the
  project-level directory, which is searched, and the location returned has the path
  of the \<open>.toml\<close> file beside it.
\<close>

theorem findFormulaWithSource_extension_counterexample:
  "statNil env0
       (world0 [''/town/rig/.beads/formulas/shiny.formula.json'' \<mapsto> File ''x'',
                ''/town/rig/.beads/formulas/shiny.formula.toml'' \<mapsto> File ''y''])
       ''/town/rig/.beads/formulas/shiny.formula.json''
   \<and> ''/town/rig/.beads/formulas/shiny.formula.json'' \<in> set (candidates env0 ''shiny'')
   \<and> findFormulaWithSource env0
         (world0 [''/town/rig/.beads/formulas/shiny.formula.json'' \<mapsto> File ''x'',
                  ''/town/rig/.beads/formulas/shiny.formula.toml'' \<mapsto> File ''y''])
         ''shiny''
       = Inr \<lparr>loc_Path = ''/town/rig/.beads/formulas/shiny.formula.toml'',
              loc_Source = FormulaSourceFile\<rparr>"
  by code_simp

section \<open>Reset refuses to choose between two overrides\<close>









section \<open>Update compares the recorded digest with the embedded one\<close>

subsection \<open>What a command reads depends on the files only\<close>









lemma files_Printf [simp]: "files (Printf w t) = files w"
  by (simp add: Printf_def)

lemma execLog_Printf [simp]: "execLog (Printf w t) = execLog w"
  by (simp add: Printf_def)

lemma stdout_Printf [simp]: "stdout (Printf w t) = stdout w @ [t]"
  by (simp add: Printf_def)


subsection \<open>The merge calls the agent once\<close>




lemma GetEmbeddedFormulaHash_content:
  assumes "GetEmbeddedFormulaHash e name = Some (Inr h)"
  shows "\<exists>content. GetEmbeddedFormula e name = Some (Inr content) \<and> h = sha256hex e content"
proof (cases "GetEmbeddedFormula e name")
  case None
  with assms show ?thesis by (simp add: GetEmbeddedFormulaHash_def)
next
  case (Some r)
  with assms show ?thesis by (cases r) (auto simp: GetEmbeddedFormulaHash_def)
qed













end
